theory Spec2Isabelle
  imports Main
begin

section \<open>The CSS selector builder of 05-objects-tasks.js\<close>

text \<open>
  The builder is the constructor function \<^verbatim>\<open>CssSelector\<close> with its nine fields and
  the methods it installs on \<^verbatim>\<open>this\<close>, and the facade object
  \<^verbatim>\<open>cssSelectorBuilder\<close>.

  JavaScript strings are modelled as \<^typ>\<open>string\<close>: one \<^typ>\<open>char\<close> stands for one
  code unit below 256. Every argument a method receives is a string, as in every
  example the source documents.
\<close>

subsection \<open>Strings: \<^verbatim>\<open>String.prototype.trim\<close>\<close>

text \<open>
  \<^verbatim>\<open>trim\<close> removes white space and line terminators from both ends. Among the code
  units below 256 these are TAB, LF, VT, FF, CR, SPACE and NO-BREAK SPACE.
\<close>

definition is_white_space :: "char \<Rightarrow> bool" where
  "is_white_space c = (of_char c \<in> {9, 10, 11, 12, 13, 32, 160 :: nat})"

definition trim :: "string \<Rightarrow> string" where
  "trim s = rev (dropWhile is_white_space (rev (dropWhile is_white_space s)))"

subsection \<open>Arrays: \<^verbatim>\<open>Array.prototype.indexOf\<close>\<close>

text \<open>The index of the first element equal to \<open>x\<close>, counted from \<open>k\<close>, or \<open>-1\<close>.\<close>

fun indexOfFrom :: "nat \<Rightarrow> 'a list \<Rightarrow> 'a \<Rightarrow> int" where
  "indexOfFrom k [] x = -1"
| "indexOfFrom k (y # ys) x = (if y = x then int k else indexOfFrom (Suc k) ys x)"

definition indexOf :: "'a list \<Rightarrow> 'a \<Rightarrow> int" where
  "indexOf xs x = indexOfFrom 0 xs x"

subsection \<open>The object \<^verbatim>\<open>CssSelector\<close>\<close>

record CssSelector =
  elementValue :: string
  idValue :: string
  classes :: string
  attrs :: string
  pseudoClasses :: string
  pseudoElementValue :: string
  combinator :: string
  supSelector :: string
  order :: "nat list"

text \<open>The fields as the constructor initialises them; \<^verbatim>\<open>Array(6).fill(0)\<close> is six zeros.\<close>

definition new_CssSelector :: CssSelector where
  "new_CssSelector =
     \<lparr> elementValue = [], idValue = [], classes = [], attrs = [],
       pseudoClasses = [], pseudoElementValue = [], combinator = [],
       supSelector = [], order = replicate 6 0 \<rparr>"

text \<open>
  The source throws \<^verbatim>\<open>Error(message)\<close>. A method call either returns (\<^verbatim>\<open>return this\<close>)
  or throws; in both cases the outcome carries the fields of \<^verbatim>\<open>this\<close> as the call
  left them.
\<close>

datatype error = Error string

datatype outcome = Returned CssSelector | Thrown error CssSelector

text \<open>Statement sequencing: the rest of a method body runs only if nothing was thrown.\<close>

definition and_then :: "outcome \<Rightarrow> (CssSelector \<Rightarrow> outcome) \<Rightarrow> outcome" where
  "and_then r f = (case r of Returned this \<Rightarrow> f this | Thrown e this \<Rightarrow> Thrown e this)"

text \<open>
  The two errors of the source, under the names the specification gives them: the one
  \<^verbatim>\<open>throwException\<close> throws and the one \<^verbatim>\<open>checkOrder\<close> throws.
\<close>

definition DuplicateFragmentError :: error where
  "DuplicateFragmentError =
     Error ''Element, id and pseudo-element should not occur more then one time inside the selector''"

definition OrderViolationError :: error where
  "OrderViolationError =
     Error ''Selector parts should be arranged in the following order: element, id, class, attribute, pseudo-class, pseudo-element''"

definition throwException :: "CssSelector \<Rightarrow> outcome" where
  "throwException this = Thrown DuplicateFragmentError this"

definition assertEmpty :: "string \<Rightarrow> CssSelector \<Rightarrow> outcome" where
  "assertEmpty val this = (if val \<noteq> [] then throwException this else Returned this)"

text \<open>
  \<^verbatim>\<open>checkOrder\<close> is called with the literals 0 to 5 only, and \<^verbatim>\<open>order\<close> has six
  slots, so the store \<^verbatim>\<open>this.order[value] = 1\<close> is always in range.
\<close>

definition checkOrder :: "nat \<Rightarrow> CssSelector \<Rightarrow> outcome" where
  "checkOrder val this =
     (let first = indexOf (order this) 1 in
      if first \<noteq> -1 \<and> first > int val
      then Thrown OrderViolationError this
      else Returned (this\<lparr>order := (order this)[val := 1]\<rparr>))"

definition element :: "string \<Rightarrow> CssSelector \<Rightarrow> outcome" where
  "element val this =
     and_then (assertEmpty (elementValue this) this) (\<lambda>this.
     and_then (checkOrder 0 this) (\<lambda>this.
     Returned (this\<lparr>elementValue := val\<rparr>)))"

definition id' :: "string \<Rightarrow> CssSelector \<Rightarrow> outcome" where
  "id' val this =
     and_then (assertEmpty (idValue this) this) (\<lambda>this.
     and_then (checkOrder 1 this) (\<lambda>this.
     Returned (this\<lparr>idValue := ''#'' @ val\<rparr>)))"

definition class' :: "string \<Rightarrow> CssSelector \<Rightarrow> outcome" where
  "class' val this =
     and_then (checkOrder 2 this) (\<lambda>this.
     Returned (this\<lparr>classes := classes this @ ''.'' @ val\<rparr>))"

definition attr :: "string \<Rightarrow> CssSelector \<Rightarrow> outcome" where
  "attr val this =
     and_then (checkOrder 3 this) (\<lambda>this.
     Returned (this\<lparr>attrs := attrs this @ ''['' @ val @ '']''\<rparr>))"

definition pseudoClass :: "string \<Rightarrow> CssSelector \<Rightarrow> outcome" where
  "pseudoClass val this =
     and_then (checkOrder 4 this) (\<lambda>this.
     Returned (this\<lparr>pseudoClasses := pseudoClasses this @ '':'' @ val\<rparr>))"

definition pseudoElement :: "string \<Rightarrow> CssSelector \<Rightarrow> outcome" where
  "pseudoElement val this =
     and_then (checkOrder 5 this) (\<lambda>this.
     and_then (assertEmpty (pseudoElementValue this) this) (\<lambda>this.
     Returned (this\<lparr>pseudoElementValue := pseudoElementValue this @ ''::'' @ val\<rparr>)))"

definition stringify :: "CssSelector \<Rightarrow> string" where
  "stringify this =
     (let result = elementValue this @ idValue this @ classes this @ attrs this
                   @ pseudoClasses this @ pseudoElementValue this @ '' '';
          result = (if combinator this \<noteq> [] \<and> supSelector this \<noteq> []
                    then result @ (combinator this @ '' '') @ supSelector this
                    else result)
      in trim result)"

text \<open>
  \<^verbatim>\<open>combine\<close> reads the other selector through its \<^verbatim>\<open>stringify\<close> only, so at the
  level of one object it takes the fields of the other selector as they are at the call.
\<close>

definition combine :: "CssSelector \<Rightarrow> string \<Rightarrow> CssSelector \<Rightarrow> outcome" where
  "combine selector comb this =
     Returned (this\<lparr>supSelector := stringify selector, combinator := comb\<rparr>)"

subsection \<open>Sequences of calls on one builder\<close>

text \<open>
  A call of one of the seven methods on a builder. \<open>Combine\<close> records the fields the
  other selector has when the call is made, and the combinator.
\<close>

datatype call =
    Element string
  | Id string
  | Class string
  | Attr string
  | PseudoClass string
  | PseudoElement string
  | Combine CssSelector string

fun apply_call :: "call \<Rightarrow> CssSelector \<Rightarrow> outcome" where
  "apply_call (Element v) = element v"
| "apply_call (Id v) = id' v"
| "apply_call (Class v) = class' v"
| "apply_call (Attr v) = attr v"
| "apply_call (PseudoClass v) = pseudoClass v"
| "apply_call (PseudoElement v) = pseudoElement v"
| "apply_call (Combine selector comb) = combine selector comb"

text \<open>A chain \<^verbatim>\<open>b.m1(..).m2(..)...\<close>: the first throw ends it.\<close>

fun run :: "call list \<Rightarrow> CssSelector \<Rightarrow> outcome" where
  "run [] this = Returned this"
| "run (c # cs) this = and_then (apply_call c this) (run cs)"

text \<open>
  A sequence of calls in which every error is caught: each call is made on the object as
  the call before it left it, returned or thrown.
\<close>

fun state_after :: "outcome \<Rightarrow> CssSelector" where
  "state_after (Returned this) = this"
| "state_after (Thrown e this) = this"

fun exec :: "call list \<Rightarrow> CssSelector \<Rightarrow> CssSelector" where
  "exec [] this = this"
| "exec (c # cs) this = exec cs (state_after (apply_call c this))"

text \<open>The index each fragment method passes to \<^verbatim>\<open>checkOrder\<close>.\<close>

fun rank_of :: "call \<Rightarrow> nat option" where
  "rank_of (Element v) = Some 0"
| "rank_of (Id v) = Some 1"
| "rank_of (Class v) = Some 2"
| "rank_of (Attr v) = Some 3"
| "rank_of (PseudoClass v) = Some 4"
| "rank_of (PseudoElement v) = Some 5"
| "rank_of (Combine selector comb) = None"

text \<open>The ranks of the fragment calls in a sequence.\<close>

definition ranks :: "call list \<Rightarrow> nat set" where
  "ranks cs = set (List.map_filter rank_of cs)"

text \<open>A \<^verbatim>\<open>combine\<close> call with a combinator and a rendered other selector that are not empty.\<close>

fun proper_combine :: "call \<Rightarrow> bool" where
  "proper_combine (Combine selector comb) = (comb \<noteq> [] \<and> stringify selector \<noteq> [])"
| "proper_combine c = True"

text \<open>
  What \<^verbatim>\<open>order\<close> holds after a sequence of calls: a 1 exactly at the ranks of the
  fragment calls made; and a fragment that occurs once has had its call.
\<close>

definition tracks :: "call list \<Rightarrow> CssSelector \<Rightarrow> bool" where
  "tracks cs s \<longleftrightarrow>
     length (order s) = 6 \<and>
     (\<forall>k<length (order s). order s ! k = 1 \<longleftrightarrow> k \<in> ranks cs) \<and>
     (elementValue s \<noteq> [] \<longrightarrow> 0 \<in> ranks cs) \<and>
     (idValue s \<noteq> [] \<longrightarrow> 1 \<in> ranks cs) \<and>
     (pseudoElementValue s \<noteq> [] \<longrightarrow> 5 \<in> ranks cs)"

text \<open>No slot of \<^verbatim>\<open>order\<close> above \<open>k\<close> holds a 1.\<close>

definition below :: "nat \<Rightarrow> CssSelector \<Rightarrow> bool" where
  "below k s \<longleftrightarrow> (\<forall>i<length (order s). order s ! i = 1 \<longrightarrow> i \<le> k)"

subsection \<open>Builders as objects: references into a store\<close>

text \<open>
  Builders are objects, and \<^verbatim>\<open>combine\<close> receives a second one, which may be the very
  same object. The store holds the fields of every object created so far; a reference
  is its position. A computation returns a value or throws, and leaves a store.
\<close>

type_synonym ref = nat
type_synonym heap = "CssSelector list"
type_synonym 'a prog = "heap \<Rightarrow> (error + 'a) \<times> heap"

definition then_do :: "'a prog \<Rightarrow> ('a \<Rightarrow> 'b prog) \<Rightarrow> 'b prog" where
  "then_do p f h = (case p h of (Inr x, h') \<Rightarrow> f x h' | (Inl e, h') \<Rightarrow> (Inl e, h'))"

text \<open>\<^verbatim>\<open>new CssSelector()\<close>\<close>

definition alloc_CssSelector :: "ref prog" where
  "alloc_CssSelector h = (Inr (length h), h @ [new_CssSelector])"

text \<open>A method call \<^verbatim>\<open>this.m(..)\<close> of a method that returns \<^verbatim>\<open>this\<close>.\<close>

definition invoke :: "(CssSelector \<Rightarrow> outcome) \<Rightarrow> ref \<Rightarrow> ref prog" where
  "invoke m this h =
     (case m (h ! this) of
        Returned s \<Rightarrow> (Inr this, h[this := s])
      | Thrown e s \<Rightarrow> (Inl e, h[this := s]))"

definition invoke_combine :: "ref \<Rightarrow> ref \<Rightarrow> string \<Rightarrow> ref prog" where
  "invoke_combine this selector comb h = invoke (combine (h ! selector) comb) this h"

definition invoke_stringify :: "ref \<Rightarrow> string prog" where
  "invoke_stringify this h = (Inr (stringify (h ! this)), h)"

subsection \<open>The facade \<^verbatim>\<open>cssSelectorBuilder\<close>\<close>

definition builder_element :: "string \<Rightarrow> ref prog" where
  "builder_element val = then_do alloc_CssSelector (invoke (element val))"

definition builder_id :: "string \<Rightarrow> ref prog" where
  "builder_id val = then_do alloc_CssSelector (invoke (id' val))"

definition builder_class :: "string \<Rightarrow> ref prog" where
  "builder_class val = then_do alloc_CssSelector (invoke (class' val))"

definition builder_attr :: "string \<Rightarrow> ref prog" where
  "builder_attr val = then_do alloc_CssSelector (invoke (attr val))"

definition builder_pseudoClass :: "string \<Rightarrow> ref prog" where
  "builder_pseudoClass val = then_do alloc_CssSelector (invoke (pseudoClass val))"

definition builder_pseudoElement :: "string \<Rightarrow> ref prog" where
  "builder_pseudoElement val = then_do alloc_CssSelector (invoke (pseudoElement val))"

definition builder_combine :: "ref \<Rightarrow> string \<Rightarrow> ref \<Rightarrow> ref prog" where
  "builder_combine selector1 comb selector2 = invoke_combine selector1 selector2 comb"

subsection \<open>The examples of the documentation\<close>

definition example_id_classes :: "string prog" where
  "example_id_classes =
     then_do (builder_id ''main'') (\<lambda>b.
     then_do (invoke (class' ''container'') b) (\<lambda>b.
     then_do (invoke (class' ''editable'') b) (\<lambda>b.
     invoke_stringify b)))"

definition example_attr_pseudo :: "string prog" where
  "example_attr_pseudo =
     then_do (builder_element ''a'') (\<lambda>b.
     then_do (invoke (attr (''href$='' @ [CHR 0x22] @ ''.png'' @ [CHR 0x22])) b) (\<lambda>b.
     then_do (invoke (pseudoClass ''focus'') b) (\<lambda>b.
     invoke_stringify b)))"

definition example_combined :: "string prog" where
  "example_combined =
     then_do (builder_element ''div'') (\<lambda>d.
     then_do (invoke (id' ''main'') d) (\<lambda>d.
     then_do (invoke (class' ''container'') d) (\<lambda>d.
     then_do (invoke (class' ''draggable'') d) (\<lambda>d.
     then_do (builder_element ''table'') (\<lambda>t.
     then_do (invoke (id' ''data'') t) (\<lambda>t.
     then_do (builder_element ''tr'') (\<lambda>r.
     then_do (invoke (pseudoClass ''nth-of-type(even)'') r) (\<lambda>r.
     then_do (builder_element ''td'') (\<lambda>c.
     then_do (invoke (pseudoClass ''nth-of-type(even)'') c) (\<lambda>c.
     then_do (builder_combine r '' '' c) (\<lambda>r.
     then_do (builder_combine t ''~'' r) (\<lambda>t.
     then_do (builder_combine d ''+'' t) (\<lambda>d.
     invoke_stringify d)))))))))))))"

section \<open>Properties\<close>

subsection \<open>Sequencing and evaluation\<close>

lemma and_then_simps [simp]:
  "and_then (Returned s) f = f s"
  "and_then (Thrown e s) f = Thrown e s"
  by (simp_all add: and_then_def)

lemma and_then_Returned_iff:
  "and_then r f = Returned s \<longleftrightarrow> (\<exists>s0. r = Returned s0 \<and> f s0 = Returned s)"
  by (cases r) simp_all

lemma errors_distinct [simp]:
  "DuplicateFragmentError \<noteq> OrderViolationError"
  "OrderViolationError \<noteq> DuplicateFragmentError"
  by (simp_all add: DuplicateFragmentError_def OrderViolationError_def)

lemma run_append: "run (cs @ ds) s = and_then (run cs s) (run ds)"
proof (induction cs arbitrary: s)
  case Nil
  show ?case by simp
next
  case (Cons c cs)
  show ?case
  proof (cases "apply_call c s")
    case (Returned s1)
    then show ?thesis using Cons.IH [of s1] by simp
  next
    case (Thrown e s1)
    then show ?thesis by simp
  qed
qed

lemma run_snoc_Returned:
  "run (cs @ [c]) s = Returned s' \<longleftrightarrow> (\<exists>s0. run cs s = Returned s0 \<and> apply_call c s0 = Returned s')"
proof -
  have "run [c] = apply_call c"
  proof
    fix t show "run [c] t = apply_call c t" by (cases "apply_call c t") simp_all
  qed
  then show ?thesis by (simp add: run_append and_then_Returned_iff)
qed

subsection \<open>\<^verbatim>\<open>indexOf\<close> and \<^verbatim>\<open>checkOrder\<close>\<close>

lemma indexOfFrom_notin: "x \<notin> set xs \<Longrightarrow> indexOfFrom k xs x = -1"
  by (induction xs arbitrary: k) auto

lemma indexOfFrom_in:
  "x \<in> set xs \<Longrightarrow> \<exists>i<length xs. indexOfFrom k xs x = int (k + i) \<and> xs ! i = x \<and> (\<forall>j<i. xs ! j \<noteq> x)"
proof (induction xs arbitrary: k)
  case Nil
  then show ?case by simp
next
  case (Cons y ys)
  show ?case
  proof (cases "y = x")
    case True
    then show ?thesis by (intro exI [of _ 0]) simp
  next
    case False
    with Cons.prems have "x \<in> set ys" by simp
    from Cons.IH [OF this, of "Suc k"] obtain i where
      i: "i < length ys" "indexOfFrom (Suc k) ys x = int (Suc k + i)" "ys ! i = x" "\<forall>j<i. ys ! j \<noteq> x"
      by blast
    have "\<forall>j<Suc i. (y # ys) ! j \<noteq> x"
      using False i(4) by (auto simp: nth_Cons split: nat.splits)
    with i False show ?thesis by (intro exI [of _ "Suc i"]) simp
  qed
qed

lemma indexOf_cases:
  "indexOf xs x = -1 \<and> x \<notin> set xs \<or>
   (\<exists>i<length xs. indexOf xs x = int i \<and> xs ! i = x \<and> (\<forall>j<i. xs ! j \<noteq> x))"
proof (cases "x \<in> set xs")
  case True
  from indexOfFrom_in [OF this, of 0] show ?thesis by (simp add: indexOf_def)
next
  case False
  then show ?thesis by (simp add: indexOf_def indexOfFrom_notin)
qed

lemma checkOrder_below:
  "below k s \<Longrightarrow> checkOrder k s = Returned (s\<lparr>order := (order s)[k := 1]\<rparr>)"
  using indexOf_cases [of "order s" 1]
  by (auto simp: checkOrder_def Let_def below_def)

lemma checkOrder_above:
  assumes "i < length (order s)" "order s ! i = 1" "\<forall>j<length (order s). order s ! j = 1 \<longrightarrow> k < j"
  shows "checkOrder k s = Thrown OrderViolationError s"
proof -
  have "1 \<in> set (order s)" using assms(1,2) by (metis nth_mem)
  with indexOf_cases [of "order s" 1] obtain i' where
    "i' < length (order s)" "indexOf (order s) 1 = int i'" "order s ! i' = 1"
    by auto
  with assms(3) show ?thesis by (auto simp: checkOrder_def Let_def)
qed

lemmas method_defs =
  element_def id'_def class'_def attr_def pseudoClass_def pseudoElement_def combine_def

lemma six_zeros: "replicate 6 (0::nat) = [0, 0, 0, 0, 0, 0]"
  by (simp add: numeral_eq_Suc)

lemmas eval_defs =
  method_defs assertEmpty_def throwException_def checkOrder_def indexOf_def Let_def
  new_CssSelector_def six_zeros

subsection \<open>What \<^verbatim>\<open>order\<close> records\<close>

lemma ranks_snoc_fragment: "rank_of c = Some k \<Longrightarrow> ranks (cs @ [c]) = insert k (ranks cs)"
  by (simp add: ranks_def List.map_filter_def)

lemma ranks_snoc_combine: "rank_of c = None \<Longrightarrow> ranks (cs @ [c]) = ranks cs"
  by (simp add: ranks_def List.map_filter_def)

lemma ranks_Nil: "ranks [] = {}"
  by (simp add: ranks_def List.map_filter_def)

lemma tracks_new: "tracks [] new_CssSelector"
  by (simp add: tracks_def new_CssSelector_def ranks_Nil nth_replicate)

lemma checkOrder_Returned: "checkOrder k s = Returned s' \<Longrightarrow> s' = s\<lparr>order := (order s)[k := 1]\<rparr>"
  by (auto simp: checkOrder_def Let_def split: if_splits)

lemma assertEmpty_Returned: "assertEmpty v s = Returned s' \<longleftrightarrow> v = [] \<and> s' = s"
  by (auto simp: assertEmpty_def throwException_def)

lemma tracks_order_update:
  assumes "tracks cs s" "k < 6"
  shows "length ((order s)[k := 1]) = 6"
    and "\<forall>j<length (order s). (order s)[k := 1] ! j = 1 \<longleftrightarrow> j \<in> insert k (ranks cs)"
proof -
  from assms(1) have len: "length (order s) = 6"
    and at: "\<forall>j<length (order s). order s ! j = 1 \<longleftrightarrow> j \<in> ranks cs"
    unfolding tracks_def by blast+
  show "length ((order s)[k := 1]) = 6" using len by simp
  show "\<forall>j<length (order s). (order s)[k := 1] ! j = 1 \<longleftrightarrow> j \<in> insert k (ranks cs)"
    using at len assms(2) by (auto simp: nth_list_update)
qed

lemma tracks_step:
  assumes "tracks cs s" "apply_call c s = Returned s'"
  shows "tracks (cs @ [c]) s'"
proof (cases c)
  case (Element v)
  with assms(2) have s': "s' = s\<lparr>order := (order s)[0 := 1], elementValue := v\<rparr>"
    by (auto simp: element_def and_then_Returned_iff assertEmpty_Returned dest!: checkOrder_Returned)
  show ?thesis
    using tracks_order_update [OF assms(1), of 0] assms(1)
    by (simp add: s' tracks_def ranks_snoc_fragment Element)
next
  case (Id v)
  with assms(2) have s': "s' = s\<lparr>order := (order s)[1 := 1], idValue := ''#'' @ v\<rparr>"
    by (auto simp: id'_def and_then_Returned_iff assertEmpty_Returned dest!: checkOrder_Returned)
  show ?thesis
    using tracks_order_update [OF assms(1), of 1] assms(1)
    by (simp add: s' tracks_def ranks_snoc_fragment Id)
next
  case (Class v)
  with assms(2) have s': "s' = s\<lparr>order := (order s)[2 := 1], classes := classes s @ ''.'' @ v\<rparr>"
    by (auto simp: class'_def and_then_Returned_iff dest!: checkOrder_Returned)
  show ?thesis
    using tracks_order_update [OF assms(1), of 2] assms(1)
    by (simp add: s' tracks_def ranks_snoc_fragment Class)
next
  case (Attr v)
  with assms(2) have s': "s' = s\<lparr>order := (order s)[3 := 1], attrs := attrs s @ ''['' @ v @ '']''\<rparr>"
    by (auto simp: attr_def and_then_Returned_iff dest!: checkOrder_Returned)
  show ?thesis
    using tracks_order_update [OF assms(1), of 3] assms(1)
    by (simp add: s' tracks_def ranks_snoc_fragment Attr)
next
  case (PseudoClass v)
  with assms(2) have s': "s' = s\<lparr>order := (order s)[4 := 1], pseudoClasses := pseudoClasses s @ '':'' @ v\<rparr>"
    by (auto simp: pseudoClass_def and_then_Returned_iff dest!: checkOrder_Returned)
  show ?thesis
    using tracks_order_update [OF assms(1), of 4] assms(1)
    by (simp add: s' tracks_def ranks_snoc_fragment PseudoClass)
next
  case (PseudoElement v)
  with assms(2) have s': "s' = s\<lparr>order := (order s)[5 := 1], pseudoElementValue := ''::'' @ v\<rparr>"
    by (auto simp: pseudoElement_def and_then_Returned_iff assertEmpty_Returned dest!: checkOrder_Returned)
  show ?thesis
    using tracks_order_update [OF assms(1), of 5] assms(1)
    by (simp add: s' tracks_def ranks_snoc_fragment PseudoElement)
next
  case (Combine r comb)
  with assms(2) have s': "s' = s\<lparr>supSelector := stringify r, combinator := comb\<rparr>"
    by (auto simp: combine_def)
  show ?thesis
    using assms(1) by (simp add: s' tracks_def ranks_snoc_combine Combine)
qed

lemma tracks_run: "run cs new_CssSelector = Returned s \<Longrightarrow> tracks cs s"
proof (induction cs arbitrary: s rule: rev_induct)
  case Nil
  then show ?case using tracks_new by simp
next
  case (snoc c cs)
  then show ?case by (auto simp: run_snoc_Returned intro: tracks_step)
qed

lemma ranks_less_6: "k \<in> ranks cs \<Longrightarrow> k < 6"
proof -
  have "rank_of c = Some j \<Longrightarrow> j < 6" for c j by (cases c) auto
  then show "k \<in> ranks cs \<Longrightarrow> k < 6"
    by (auto simp: ranks_def List.map_filter_def)
qed

lemma tracks_below:
  assumes "tracks cs s" "\<forall>j\<in>ranks cs. j \<le> k"
  shows "below k s"
  unfolding below_def
proof (intro allI impI)
  fix i assume i: "i < length (order s)" "order s ! i = 1"
  from assms(1) have "\<forall>j<length (order s). order s ! j = 1 \<longleftrightarrow> j \<in> ranks cs"
    unfolding tracks_def by blast
  with i have "i \<in> ranks cs" by blast
  with assms(2) show "i \<le> k" by blast
qed

lemma tracks_nth: "tracks cs s \<Longrightarrow> i < length (order s) \<Longrightarrow> order s ! i = 1 \<longleftrightarrow> i \<in> ranks cs"
  unfolding tracks_def by blast

lemma tracks_length: "tracks cs s \<Longrightarrow> length (order s) = 6"
  unfolding tracks_def by blast


lemma tracks_above:
  assumes "tracks cs s" "ranks cs \<noteq> {}" "\<forall>j\<in>ranks cs. k < j"
  shows "checkOrder k s = Thrown OrderViolationError s"
proof -
  from assms(2) obtain i where i: "i \<in> ranks cs" by blast
  then have i6: "i < 6" by (rule ranks_less_6)
  have il: "i < length (order s)" using i6 tracks_length [OF assms(1)] by simp
  have 1: "i < length (order s)" "order s ! i = 1"
    using il i tracks_nth [OF assms(1) il] by blast+
  have 2: "\<forall>j<length (order s). order s ! j = 1 \<longrightarrow> k < j"
    using assms(3) tracks_nth [OF assms(1)] by blast
  from checkOrder_above [OF 1 2] show ?thesis .
qed

subsection \<open>The order check\<close>

text \<open>
  C1 at \<^verbatim>\<open>element('div').class('a').id('x')\<close>. After \<^verbatim>\<open>element('div').class('a')\<close>
  the ranks appended are 0 and 2. The call \<^verbatim>\<open>id('x')\<close> has rank 1, lower than the
  highest rank appended, so it should throw OrderViolationError. It returns instead, and
  the builder renders \<^verbatim>\<open>div#x.a\<close>: \<^verbatim>\<open>checkOrder\<close> compares the rank with
  \<^verbatim>\<open>order.indexOf(1)\<close>, the lowest rank appended, not the highest.
\<close>

theorem order_check_first_index:
  "run [Element ''div'', Class ''a''] new_CssSelector
     = Returned (new_CssSelector\<lparr>elementValue := ''div'', classes := ''.a'', order := [1, 0, 1, 0, 0, 0]\<rparr>)
   \<and> ranks [Element ''div'', Class ''a''] = {0, 2}
   \<and> rank_of (Id ''x'') = Some 1
   \<and> indexOf [1, 0, 1, 0, 0, 0 :: nat] 1 = 0
   \<and> apply_call (Id ''x'') (new_CssSelector\<lparr>elementValue := ''div'', classes := ''.a'', order := [1, 0, 1, 0, 0, 0]\<rparr>)
     = Returned (new_CssSelector\<lparr>elementValue := ''div'', idValue := ''#x'', classes := ''.a'', order := [1, 1, 1, 0, 0, 0]\<rparr>)
   \<and> stringify (new_CssSelector\<lparr>elementValue := ''div'', idValue := ''#x'', classes := ''.a'', order := [1, 1, 1, 0, 0, 0]\<rparr>)
     = ''div#x.a''"
  by (simp add: eval_defs ranks_def List.map_filter_def insert_commute
        stringify_def trim_def is_white_space_def)

text \<open>The same after a pseudo-element: \<^verbatim>\<open>element('a').pseudoElement('after').class('b')\<close> returns.\<close>

lemma order_check_first_index_class:
  "run [Element ''a'', PseudoElement ''after'', Class ''b''] new_CssSelector
     = Returned (new_CssSelector\<lparr>elementValue := ''a'', classes := ''.b'',
         pseudoElementValue := ''::after'', order := [1, 0, 1, 0, 0, 1]\<rparr>)"
  by (simp add: eval_defs)

text \<open>
  The check works at the two ends. On a builder made from a fresh one by calls that all
  returned, a fragment call whose rank is lower than every rank appended throws
  OrderViolationError, and one whose rank is equal to or higher than every rank appended
  does not throw it.
\<close>

lemma checkOrder_at_the_ends:
  assumes "run cs new_CssSelector = Returned s" and "rank_of c = Some k"
  shows "(ranks cs \<noteq> {} \<and> (\<forall>j\<in>ranks cs. k < j) \<longrightarrow>
            apply_call c s = Thrown OrderViolationError s)
       \<and> ((\<forall>j\<in>ranks cs. j \<le> k) \<longrightarrow>
            (\<forall>s'. apply_call c s \<noteq> Thrown OrderViolationError s'))"
proof (intro conjI impI)
  have t: "tracks cs s" using assms(1) by (rule tracks_run)
  {
    assume a: "ranks cs \<noteq> {} \<and> (\<forall>j\<in>ranks cs. k < j)"
    then have thrown: "checkOrder k s = Thrown OrderViolationError s"
      using tracks_above [OF t] by blast
    have "k \<notin> ranks cs" using a by blast
    moreover from t have "elementValue s \<noteq> [] \<longrightarrow> 0 \<in> ranks cs" "idValue s \<noteq> [] \<longrightarrow> 1 \<in> ranks cs"
      by (simp_all add: tracks_def)
    ultimately have unset: "k = 0 \<longrightarrow> elementValue s = []" "k = 1 \<longrightarrow> idValue s = []"
      by blast+
    show "apply_call c s = Thrown OrderViolationError s"
      using assms(2) thrown unset
      by (cases c) (auto simp: element_def id'_def class'_def attr_def pseudoClass_def pseudoElement_def assertEmpty_def)
  }
  {
    assume "\<forall>j\<in>ranks cs. j \<le> k"
    with t have "below k s" by (rule tracks_below)
    then have ret: "checkOrder k s = Returned (s\<lparr>order := (order s)[k := 1]\<rparr>)"
      by (rule checkOrder_below)
    show "\<forall>s'. apply_call c s \<noteq> Thrown OrderViolationError s'"
      using assms(2) ret
      by (cases c) (auto simp: element_def id'_def class'_def attr_def pseudoClass_def pseudoElement_def assertEmpty_def throwException_def)
  }
qed

text \<open>
  A second \<^verbatim>\<open>element\<close> or \<^verbatim>\<open>id\<close> throws DuplicateFragmentError whatever its rank,
  since both methods call \<^verbatim>\<open>assertEmpty\<close> before \<^verbatim>\<open>checkOrder\<close>: so does
  \<^verbatim>\<open>element('c')\<close> after \<^verbatim>\<open>element('a').id('b')\<close>.
\<close>

lemma duplicate_before_order:
  "run [Element ''a'', Id ''b''] new_CssSelector
     = Returned (new_CssSelector\<lparr>elementValue := ''a'', idValue := ''#b'', order := [1, 1, 0, 0, 0, 0]\<rparr>)
   \<and> apply_call (Element ''c'') (new_CssSelector\<lparr>elementValue := ''a'', idValue := ''#b'', order := [1, 1, 0, 0, 0, 0]\<rparr>)
     = Thrown DuplicateFragmentError (new_CssSelector\<lparr>elementValue := ''a'', idValue := ''#b'', order := [1, 1, 0, 0, 0, 0]\<rparr>)"
  by (simp add: eval_defs)

subsection \<open>A fragment method that throws changes nothing\<close>

lemma and_then_Thrown_iff:
  "and_then r f = Thrown e s \<longleftrightarrow> r = Thrown e s \<or> (\<exists>s0. r = Returned s0 \<and> f s0 = Thrown e s)"
  by (cases r) simp_all

lemma checkOrder_Thrown: "checkOrder k s = Thrown e s' \<Longrightarrow> e = OrderViolationError \<and> s' = s"
  by (auto simp: checkOrder_def Let_def split: if_splits)

lemma assertEmpty_Thrown: "assertEmpty v s = Thrown e s' \<longleftrightarrow> v \<noteq> [] \<and> e = DuplicateFragmentError \<and> s' = s"
  by (auto simp: assertEmpty_def throwException_def)

lemma order_update_same: "k < length (order s) \<Longrightarrow> order s ! k = 1 \<Longrightarrow> s\<lparr>order := (order s)[k := 1]\<rparr> = s"
  by (simp add: list_update_same_conv [THEN iffD2])

lemma tracks_pseudoElement_set:
  assumes "tracks cs s" "pseudoElementValue s \<noteq> []"
  shows "s\<lparr>order := (order s)[5 := 1]\<rparr> = s"
proof -
  from assms have "5 \<in> ranks cs" unfolding tracks_def by blast
  moreover have "5 < length (order s)" using tracks_length [OF assms(1)] by simp
  ultimately show ?thesis using tracks_nth [OF assms(1)] by (intro order_update_same) blast+
qed

lemma thrown_unchanged:
  assumes "tracks cs s" and "apply_call c s = Thrown e s'"
  shows "s' = s"
proof (cases c)
  case (Element v)
  with assms(2) show ?thesis
    by (auto simp: element_def and_then_Thrown_iff assertEmpty_Thrown assertEmpty_Returned
             dest: checkOrder_Thrown)
next
  case (Id v)
  with assms(2) show ?thesis
    by (auto simp: id'_def and_then_Thrown_iff assertEmpty_Thrown assertEmpty_Returned
             dest: checkOrder_Thrown)
next
  case (Class v)
  with assms(2) show ?thesis
    by (auto simp: class'_def and_then_Thrown_iff dest: checkOrder_Thrown)
next
  case (Attr v)
  with assms(2) show ?thesis
    by (auto simp: attr_def and_then_Thrown_iff dest: checkOrder_Thrown)
next
  case (PseudoClass v)
  with assms(2) show ?thesis
    by (auto simp: pseudoClass_def and_then_Thrown_iff dest: checkOrder_Thrown)
next
  case (PseudoElement v)
  with assms(2) consider
      "checkOrder 5 s = Thrown e s'"
    | s1 where "checkOrder 5 s = Returned s1" "assertEmpty (pseudoElementValue s1) s1 = Thrown e s'"
    by (auto simp: pseudoElement_def and_then_Thrown_iff)
  then show ?thesis
  proof cases
    case 1
    then show ?thesis by (simp add: checkOrder_Thrown)
  next
    case 2
    from 2(1) have s1: "s1 = s\<lparr>order := (order s)[5 := 1]\<rparr>" by (rule checkOrder_Returned)
    from 2(2) have "pseudoElementValue s1 \<noteq> []" "s' = s1" by (simp_all add: assertEmpty_Thrown)
    then have "pseudoElementValue s \<noteq> []" "s' = s\<lparr>order := (order s)[5 := 1]\<rparr>"
      by (simp_all add: s1)
    with tracks_pseudoElement_set [OF assms(1)] show ?thesis by simp
  qed
next
  case (Combine r comb)
  with assms(2) show ?thesis by (simp add: combine_def)
qed

lemma exec_append: "exec (cs @ ds) s = exec ds (exec cs s)"
  by (induction cs arbitrary: s) simp_all

lemma exec_tracks: "\<exists>cs'. tracks cs' (exec cs new_CssSelector)"
proof (induction cs rule: rev_induct)
  case Nil
  show ?case using tracks_new by auto
next
  case (snoc c cs)
  then obtain cs' where t: "tracks cs' (exec cs new_CssSelector)" by blast
  show ?case
  proof (cases "apply_call c (exec cs new_CssSelector)")
    case (Returned s1)
    with tracks_step [OF t] have "tracks (cs' @ [c]) (exec (cs @ [c]) new_CssSelector)"
      by (simp add: exec_append)
    then show ?thesis by blast
  next
    case (Thrown e s1)
    with thrown_unchanged [OF t] have "exec (cs @ [c]) new_CssSelector = exec cs new_CssSelector"
      by (simp add: exec_append)
    with t show ?thesis by auto
  qed
qed

text \<open>
  C10. On a builder reached from a fresh one by any sequence of calls, failed calls
  among them, a call that throws leaves every field as it was: \<^verbatim>\<open>stringify\<close> renders
  the same string, and whatever calls follow leave the builder as they would have without
  the failed call. (\<^verbatim>\<open>pseudoElement\<close> stores into \<^verbatim>\<open>order[5]\<close> before it can throw,
  but that slot already holds 1 whenever the pseudo-element is set.)
\<close>

theorem fragment_call_atomic:
  assumes "apply_call c (exec cs new_CssSelector) = Thrown e s'"
  shows "s' = exec cs new_CssSelector
       \<and> stringify s' = stringify (exec cs new_CssSelector)
       \<and> (\<forall>ds. exec (cs @ c # ds) new_CssSelector = exec (cs @ ds) new_CssSelector)"
proof -
  from exec_tracks obtain cs' where "tracks cs' (exec cs new_CssSelector)" by blast
  from thrown_unchanged [OF this assms] have "s' = exec cs new_CssSelector" .
  with assms show ?thesis by (simp add: exec_append)
qed

text \<open>
  The theorem at \<^verbatim>\<open>pseudoElement('after')\<close> followed by \<^verbatim>\<open>pseudoElement('before')\<close>, and
  then by \<^verbatim>\<open>class('x')\<close>, which throws too.
\<close>

theorem fragment_call_atomic_witness:
  "apply_call (PseudoElement ''before'') (exec [PseudoElement ''after''] new_CssSelector)
     = Thrown DuplicateFragmentError (new_CssSelector\<lparr>pseudoElementValue := ''::after'', order := [0, 0, 0, 0, 0, 1]\<rparr>)
   \<and> new_CssSelector\<lparr>pseudoElementValue := ''::after'', order := [0, 0, 0, 0, 0, 1]\<rparr>
     = exec [PseudoElement ''after''] new_CssSelector
   \<and> exec [PseudoElement ''after'', PseudoElement ''before'', Class ''x''] new_CssSelector
     = exec [PseudoElement ''after'', Class ''x''] new_CssSelector"
proof -
  have t: "apply_call (PseudoElement ''before'') (exec [PseudoElement ''after''] new_CssSelector)
     = Thrown DuplicateFragmentError (new_CssSelector\<lparr>pseudoElementValue := ''::after'', order := [0, 0, 0, 0, 0, 1]\<rparr>)"
    by (simp add: eval_defs)
  from fragment_call_atomic [OF t]
  have "new_CssSelector\<lparr>pseudoElementValue := ''::after'', order := [0, 0, 0, 0, 0, 1]\<rparr>
          = exec [PseudoElement ''after''] new_CssSelector"
    and "exec ([PseudoElement ''after''] @ PseudoElement ''before'' # [Class ''x'']) new_CssSelector
          = exec ([PseudoElement ''after''] @ [Class ''x'']) new_CssSelector"
    by blast+
  with t show ?thesis by simp
qed

subsection \<open>The combinator and the stored text\<close>

lemma fragment_keeps_link:
  assumes "apply_call c s = Returned s'" "rank_of c = Some k"
  shows "combinator s' = combinator s \<and> supSelector s' = supSelector s"
  using assms
  by (cases c)
     (auto simp: method_defs and_then_Returned_iff assertEmpty_Returned dest!: checkOrder_Returned)

lemma link_step:
  assumes "apply_call c s = Returned s'" "proper_combine c" "combinator s = [] \<longleftrightarrow> supSelector s = []"
  shows "combinator s' = [] \<longleftrightarrow> supSelector s' = []"
proof (cases "rank_of c")
  case None
  then obtain r comb where c: "c = Combine r comb" by (cases c) auto
  with assms(1,2) show ?thesis by (auto simp: combine_def)
next
  case (Some k)
  with fragment_keeps_link [OF assms(1)] assms(3) show ?thesis by simp
qed

text \<open>
  C5, as the code has it. On a builder made from a fresh one by calls that all returned,
  where every \<^verbatim>\<open>combine\<close> call was given a combinator that is not the empty string and
  another selector that renders to a string that is not empty, \<^verbatim>\<open>combinator\<close> and
  \<^verbatim>\<open>supSelector\<close> are both unset (empty) or both set.
\<close>

theorem combinator_and_supSelector:
  assumes "run cs new_CssSelector = Returned s" and "list_all proper_combine cs"
  shows "combinator s = [] \<longleftrightarrow> supSelector s = []"
  using assms
proof (induction cs arbitrary: s rule: rev_induct)
  case Nil
  then show ?case by (auto simp: new_CssSelector_def)
next
  case (snoc c cs)
  from snoc.prems(1) obtain s0 where s0: "run cs new_CssSelector = Returned s0" "apply_call c s0 = Returned s"
    by (auto simp: run_snoc_Returned)
  from snoc.prems(2) have p: "list_all proper_combine cs" "proper_combine c" by simp_all
  from link_step [OF s0(2) p(2) snoc.IH [OF s0(1) p(1)]] show ?case .
qed

text \<open>The theorem at \<^verbatim>\<open>element('a')\<close> combined by \<^verbatim>\<open>'+'\<close> with \<^verbatim>\<open>element('b')\<close>.\<close>

theorem combinator_and_supSelector_witness:
  "run [Element ''a'', Combine (new_CssSelector\<lparr>elementValue := ''b'', order := [1, 0, 0, 0, 0, 0]\<rparr>) ''+''] new_CssSelector
     = Returned (new_CssSelector\<lparr>elementValue := ''a'', combinator := ''+'', supSelector := ''b'', order := [1, 0, 0, 0, 0, 0]\<rparr>)
   \<and> list_all proper_combine [Element ''a'', Combine (new_CssSelector\<lparr>elementValue := ''b'', order := [1, 0, 0, 0, 0, 0]\<rparr>) ''+'']
   \<and> combinator (new_CssSelector\<lparr>elementValue := ''a'', combinator := ''+'', supSelector := ''b'', order := [1, 0, 0, 0, 0, 0]\<rparr>) \<noteq> []
   \<and> supSelector (new_CssSelector\<lparr>elementValue := ''a'', combinator := ''+'', supSelector := ''b'', order := [1, 0, 0, 0, 0, 0]\<rparr>) \<noteq> []"
proof -
  let ?b = "new_CssSelector\<lparr>elementValue := ''b'', order := [1, 0, 0, 0, 0, 0]\<rparr>"
  let ?s = "new_CssSelector\<lparr>elementValue := ''a'', combinator := ''+'', supSelector := ''b'', order := [1, 0, 0, 0, 0, 0]\<rparr>"
  have r: "run [Element ''a'', Combine ?b ''+''] new_CssSelector = Returned ?s"
    by (simp add: eval_defs stringify_def trim_def is_white_space_def)
  have p: "list_all proper_combine [Element ''a'', Combine ?b ''+'']"
    by (simp add: stringify_def trim_def is_white_space_def new_CssSelector_def)
  have c: "combinator ?s \<noteq> []" by simp
  from combinator_and_supSelector [OF r p] c have "supSelector ?s \<noteq> []" by blast
  with r p c show ?thesis by blast
qed

text \<open>
  \<^verbatim>\<open>combine\<close> stores any combinator: with the empty string, \<^verbatim>\<open>element('a')\<close> combined
  with \<^verbatim>\<open>element('b')\<close> has \<^verbatim>\<open>combinator\<close> unset and \<^verbatim>\<open>supSelector\<close> set.
\<close>

theorem combinator_and_supSelector_counterexample:
  "run [Element ''b''] new_CssSelector
     = Returned (new_CssSelector\<lparr>elementValue := ''b'', order := [1, 0, 0, 0, 0, 0]\<rparr>)
   \<and> run [Element ''a'', Combine (new_CssSelector\<lparr>elementValue := ''b'', order := [1, 0, 0, 0, 0, 0]\<rparr>) []] new_CssSelector
     = Returned (new_CssSelector\<lparr>elementValue := ''a'', combinator := [], supSelector := ''b'', order := [1, 0, 0, 0, 0, 0]\<rparr>)
   \<and> combinator (new_CssSelector\<lparr>elementValue := ''a'', combinator := [], supSelector := ''b'', order := [1, 0, 0, 0, 0, 0]\<rparr>) = []
   \<and> supSelector (new_CssSelector\<lparr>elementValue := ''a'', combinator := [], supSelector := ''b'', order := [1, 0, 0, 0, 0, 0]\<rparr>) = ''b''"
  by (simp add: eval_defs stringify_def trim_def is_white_space_def)

subsection \<open>The messages of the two errors\<close>

lemma apply_call_Thrown_error:
  "apply_call c s = Thrown e s' \<Longrightarrow> e = DuplicateFragmentError \<or> e = OrderViolationError"
  by (cases c)
     (auto simp: method_defs and_then_Thrown_iff assertEmpty_Thrown dest: checkOrder_Thrown)

text \<open>
  C4, as the code has it. A fragment method throws through \<^verbatim>\<open>assertEmpty\<close> or through
  \<^verbatim>\<open>checkOrder\<close> and nowhere else. The error of \<^verbatim>\<open>assertEmpty\<close>
  (DuplicateFragmentError) has exactly the message "Element, id and pseudo-element
  should not occur more then one time inside the selector", spelled "more then"; the
  error of \<^verbatim>\<open>checkOrder\<close> (OrderViolationError) has exactly the message "Selector parts
  should be arranged in the following order: element, id, class, attribute,
  pseudo-class, pseudo-element".
\<close>

theorem error_messages:
  "(assertEmpty v s = Thrown e s' \<longrightarrow>
      e = Error ''Element, id and pseudo-element should not occur more then one time inside the selector'')
   \<and> (checkOrder k s = Thrown e s' \<longrightarrow>
      e = Error ''Selector parts should be arranged in the following order: element, id, class, attribute, pseudo-class, pseudo-element'')
   \<and> (apply_call c s = Thrown e s' \<longrightarrow>
      e = Error ''Element, id and pseudo-element should not occur more then one time inside the selector''
      \<or> e = Error ''Selector parts should be arranged in the following order: element, id, class, attribute, pseudo-class, pseudo-element'')"
proof (intro conjI impI)
  assume "assertEmpty v s = Thrown e s'"
  then show "e = Error ''Element, id and pseudo-element should not occur more then one time inside the selector''"
    by (simp add: assertEmpty_Thrown DuplicateFragmentError_def)
next
  assume "checkOrder k s = Thrown e s'"
  then show "e = Error ''Selector parts should be arranged in the following order: element, id, class, attribute, pseudo-class, pseudo-element''"
    by (auto simp: OrderViolationError_def dest: checkOrder_Thrown)
next
  assume "apply_call c s = Thrown e s'"
  then show "e = Error ''Element, id and pseudo-element should not occur more then one time inside the selector''
      \<or> e = Error ''Selector parts should be arranged in the following order: element, id, class, attribute, pseudo-class, pseudo-element''"
    using apply_call_Thrown_error [of c s e s']
    by (simp add: DuplicateFragmentError_def OrderViolationError_def)
qed

text \<open>
  The theorem at \<^verbatim>\<open>assertEmpty\<close> on a set element, and at \<^verbatim>\<open>checkOrder(0)\<close> and
  \<^verbatim>\<open>element('div')\<close> after \<^verbatim>\<open>id('x')\<close>.
\<close>

theorem error_messages_witness:
  "assertEmpty ''table'' (new_CssSelector\<lparr>elementValue := ''table'', order := [1, 0, 0, 0, 0, 0]\<rparr>)
     = Thrown DuplicateFragmentError (new_CssSelector\<lparr>elementValue := ''table'', order := [1, 0, 0, 0, 0, 0]\<rparr>)
   \<and> DuplicateFragmentError
     = Error ''Element, id and pseudo-element should not occur more then one time inside the selector''
   \<and> checkOrder 0 (new_CssSelector\<lparr>idValue := ''#x'', order := [0, 1, 0, 0, 0, 0]\<rparr>)
     = Thrown OrderViolationError (new_CssSelector\<lparr>idValue := ''#x'', order := [0, 1, 0, 0, 0, 0]\<rparr>)
   \<and> OrderViolationError
     = Error ''Selector parts should be arranged in the following order: element, id, class, attribute, pseudo-class, pseudo-element''
   \<and> apply_call (Element ''div'') (new_CssSelector\<lparr>idValue := ''#x'', order := [0, 1, 0, 0, 0, 0]\<rparr>)
     = Thrown OrderViolationError (new_CssSelector\<lparr>idValue := ''#x'', order := [0, 1, 0, 0, 0, 0]\<rparr>)"
proof -
  let ?t = "new_CssSelector\<lparr>elementValue := ''table'', order := [1, 0, 0, 0, 0, 0]\<rparr>"
  let ?x = "new_CssSelector\<lparr>idValue := ''#x'', order := [0, 1, 0, 0, 0, 0]\<rparr>"
  have a: "assertEmpty ''table'' ?t = Thrown DuplicateFragmentError ?t"
    by (simp add: assertEmpty_def throwException_def)
  have b: "checkOrder 0 ?x = Thrown OrderViolationError ?x"
    by (simp add: eval_defs)
  have c: "apply_call (Element ''div'') ?x = Thrown OrderViolationError ?x"
    by (simp add: eval_defs)
  from error_messages [of "''table''" ?t DuplicateFragmentError ?t 0 "Element ''div''"] a
  have d: "DuplicateFragmentError
     = Error ''Element, id and pseudo-element should not occur more then one time inside the selector''"
    by blast
  from error_messages [of "''table''" ?x OrderViolationError ?x 0 "Element ''div''"] b
  have e: "OrderViolationError
     = Error ''Selector parts should be arranged in the following order: element, id, class, attribute, pseudo-class, pseudo-element''"
    by blast
  from a b c d e show ?thesis by blast
qed

text \<open>
  \<^verbatim>\<open>element('table').element('div')\<close> throws the message with "more then", which is not
  the message with "more than".
\<close>

theorem error_messages_counterexample:
  "run [Element ''table'', Element ''div''] new_CssSelector
     = Thrown (Error ''Element, id and pseudo-element should not occur more then one time inside the selector'')
         (new_CssSelector\<lparr>elementValue := ''table'', order := [1, 0, 0, 0, 0, 0]\<rparr>)
   \<and> Error ''Element, id and pseudo-element should not occur more then one time inside the selector''
     \<noteq> Error ''Element, id and pseudo-element should not occur more than one time inside the selector''"
  by (simp add: eval_defs DuplicateFragmentError_def)

subsection \<open>A second element, id or pseudo-element\<close>

text \<open>
  C2 at \<^verbatim>\<open>element('').element('div')\<close>: the first call stores the empty string, which
  \<^verbatim>\<open>assertEmpty\<close> takes for an element never set, so the second call returns and
  nothing is thrown.
\<close>

theorem element_twice_returns:
  "run [Element [], Element ''div''] new_CssSelector
     = Returned (new_CssSelector\<lparr>elementValue := ''div'', order := [1, 0, 0, 0, 0, 0]\<rparr>)"
  by (simp add: eval_defs)

text \<open>
  Everywhere else the second call throws DuplicateFragmentError, wherever the two calls
  stand among calls that returned: for \<^verbatim>\<open>element\<close> when the first argument is not
  empty, for \<^verbatim>\<open>id\<close> and \<^verbatim>\<open>pseudoElement\<close> always.
\<close>

lemma set_stays_set:
  assumes "apply_call c s = Returned s'"
  shows "(elementValue s \<noteq> [] \<longrightarrow> elementValue s' \<noteq> [])
       \<and> (idValue s \<noteq> [] \<longrightarrow> idValue s' \<noteq> [])
       \<and> (pseudoElementValue s \<noteq> [] \<longrightarrow> pseudoElementValue s' \<noteq> [])"
  using assms
  by (cases c)
     (auto simp: method_defs and_then_Returned_iff assertEmpty_Returned dest!: checkOrder_Returned)

lemma run_set_stays_set:
  assumes "run cs s = Returned s'"
  shows "(elementValue s \<noteq> [] \<longrightarrow> elementValue s' \<noteq> [])
       \<and> (idValue s \<noteq> [] \<longrightarrow> idValue s' \<noteq> [])
       \<and> (pseudoElementValue s \<noteq> [] \<longrightarrow> pseudoElementValue s' \<noteq> [])"
  using assms
proof (induction cs arbitrary: s)
  case Nil
  then show ?case by simp
next
  case (Cons c cs)
  from Cons.prems obtain s1 where s1: "apply_call c s = Returned s1" "run cs s1 = Returned s'"
    by (auto simp: and_then_Returned_iff)
  from set_stays_set [OF s1(1)] Cons.IH [OF s1(2)] show ?case by blast
qed

lemma after_call_set:
  assumes "apply_call c s = Returned s'"
  shows "(\<forall>v. c = Element v \<and> v \<noteq> [] \<longrightarrow> elementValue s' \<noteq> [])
       \<and> (\<forall>v. c = Id v \<longrightarrow> idValue s' \<noteq> [])
       \<and> (\<forall>v. c = PseudoElement v \<longrightarrow> pseudoElementValue s' \<noteq> [])"
  using assms
  by (cases c)
     (auto simp: method_defs and_then_Returned_iff assertEmpty_Returned dest!: checkOrder_Returned)

lemma second_call_raises:
  assumes "run (cs @ c # ds) new_CssSelector = Returned s"
    and "(\<exists>v v'. v \<noteq> [] \<and> c = Element v \<and> c' = Element v')
       \<or> (\<exists>v v'. c = Id v \<and> c' = Id v')
       \<or> (\<exists>v v'. c = PseudoElement v \<and> c' = PseudoElement v')"
  shows "apply_call c' s = Thrown DuplicateFragmentError s"
proof -
  from assms(1) obtain s0 s1 where
    s: "run cs new_CssSelector = Returned s0" "apply_call c s0 = Returned s1" "run ds s1 = Returned s"
    by (auto simp: run_append and_then_Returned_iff)
  note a = after_call_set [OF s(2)] and b = run_set_stays_set [OF s(3)]
  have t: "tracks (cs @ c # ds) s" using assms(1) by (rule tracks_run)
  from assms(2) consider
      v v' where "v \<noteq> []" "c = Element v" "c' = Element v'"
    | v v' where "c = Id v" "c' = Id v'"
    | v v' where "c = PseudoElement v" "c' = PseudoElement v'"
    by blast
  then show ?thesis
  proof cases
    case 1
    with a b have "elementValue s \<noteq> []" by blast
    with 1 show ?thesis by (simp add: element_def assertEmpty_def throwException_def)
  next
    case 2
    with a b have "idValue s \<noteq> []" by blast
    with 2 show ?thesis by (simp add: id'_def assertEmpty_def throwException_def)
  next
    case 3
    with a b have set: "pseudoElementValue s \<noteq> []" by blast
    have "below 5 s"
      using tracks_below [OF t, of 5] ranks_less_6 [of _ "cs @ c # ds"] by fastforce
    then have "checkOrder 5 s = Returned (s\<lparr>order := (order s)[5 := 1]\<rparr>)"
      by (rule checkOrder_below)
    with tracks_pseudoElement_set [OF t set] have "checkOrder 5 s = Returned s" by simp
    with 3 set show ?thesis
      by (simp add: pseudoElement_def assertEmpty_def throwException_def)
  qed
qed

subsection \<open>Builders in the store\<close>

lemma invoke_fresh:
  "invoke m (length h) (h @ [s]) =
     (case m s of Returned s' \<Rightarrow> (Inr (length h), h @ [s']) | Thrown e s' \<Rightarrow> (Inl e, h @ [s']))"
  by (simp add: invoke_def split: outcome.splits)

lemma facade_fresh:
  "then_do alloc_CssSelector (invoke m) h =
     (case m new_CssSelector of
        Returned s \<Rightarrow> (Inr (length h), h @ [s])
      | Thrown e s \<Rightarrow> (Inl e, h @ [s]))"
  by (simp add: then_do_def alloc_CssSelector_def invoke_fresh)

lemma fresh_below: "below k new_CssSelector"
  by (simp add: below_def new_CssSelector_def)

lemma fragment_on_fresh:
  "element v new_CssSelector = Returned (new_CssSelector\<lparr>elementValue := v, order := [1, 0, 0, 0, 0, 0]\<rparr>)"
  "id' v new_CssSelector = Returned (new_CssSelector\<lparr>idValue := ''#'' @ v, order := [0, 1, 0, 0, 0, 0]\<rparr>)"
  "class' v new_CssSelector = Returned (new_CssSelector\<lparr>classes := ''.'' @ v, order := [0, 0, 1, 0, 0, 0]\<rparr>)"
  "attr v new_CssSelector = Returned (new_CssSelector\<lparr>attrs := ''['' @ v @ '']'', order := [0, 0, 0, 1, 0, 0]\<rparr>)"
  "pseudoClass v new_CssSelector = Returned (new_CssSelector\<lparr>pseudoClasses := '':'' @ v, order := [0, 0, 0, 0, 1, 0]\<rparr>)"
  "pseudoElement v new_CssSelector = Returned (new_CssSelector\<lparr>pseudoElementValue := ''::'' @ v, order := [0, 0, 0, 0, 0, 1]\<rparr>)"
  by (simp_all add: eval_defs)

lemmas store_defs =
  then_do_def alloc_CssSelector_def invoke_def invoke_combine_def invoke_stringify_def
  builder_element_def builder_id_def builder_class_def builder_attr_def
  builder_pseudoClass_def builder_pseudoElement_def builder_combine_def

lemmas render_defs = stringify_def trim_def is_white_space_def

lemma nth_store: "(h @ xs) ! (length h + n) = xs ! n"
  by simp

lemma update_store: "(h @ xs)[length h + n := y] = h @ xs[n := y]"
  by (simp add: list_update_append)

lemma nth_store_Suc [simp]:
  "(h @ xs) ! Suc (length h) = xs ! 1"
  "(h @ xs) ! Suc (Suc (length h)) = xs ! 2"
  "(h @ xs) ! Suc (Suc (Suc (length h))) = xs ! 3"
  using nth_store [of h xs 1] nth_store [of h xs 2] nth_store [of h xs 3]
  by (simp_all add: numeral_eq_Suc)

lemma update_store_Suc [simp]:
  "(h @ xs)[Suc (length h) := y] = h @ xs[1 := y]"
  "(h @ xs)[Suc (Suc (length h)) := y] = h @ xs[2 := y]"
  "(h @ xs)[Suc (Suc (Suc (length h))) := y] = h @ xs[3 := y]"
  using update_store [of h xs 1 y] update_store [of h xs 2 y] update_store [of h xs 3 y]
  by (simp_all add: numeral_eq_Suc)

lemma invoke_at:
  "n < length xs \<Longrightarrow> invoke m (length h + n) (h @ xs) =
     (case m (xs ! n) of
        Returned s \<Rightarrow> (Inr (length h + n), h @ xs[n := s])
      | Thrown e s \<Rightarrow> (Inl e, h @ xs[n := s]))"
  by (simp add: invoke_def list_update_append split: outcome.splits)

lemma invoke_combine_at:
  "n < length xs \<Longrightarrow> k < length xs \<Longrightarrow>
   invoke_combine (length h + n) (length h + k) comb (h @ xs) =
     (Inr (length h + n), h @ xs[n := (xs ! n)\<lparr>supSelector := stringify (xs ! k), combinator := comb\<rparr>])"
  by (simp add: invoke_combine_def invoke_at combine_def)

lemma builder_element_eq:
  "builder_element v h = (Inr (length h), h @ [new_CssSelector\<lparr>elementValue := v, order := [1, 0, 0, 0, 0, 0]\<rparr>])"
  by (simp add: builder_element_def facade_fresh fragment_on_fresh)

subsection \<open>The facade\<close>

text \<open>
  C7. Each entry point of the facade yields a new object, the store otherwise as it was,
  whose fields are those the method of the same name leaves on a fresh
  \<^verbatim>\<open>CssSelector\<close>. The facade's \<^verbatim>\<open>combine(selector1, combinator, selector2)\<close> is
  \<^verbatim>\<open>selector1.combine(selector2, combinator)\<close>, and returns \<^verbatim>\<open>selector1\<close>.
\<close>

theorem facade_refines:
  "(\<exists>s. element v new_CssSelector = Returned s \<and> builder_element v h = (Inr (length h), h @ [s]))
   \<and> (\<exists>s. id' v new_CssSelector = Returned s \<and> builder_id v h = (Inr (length h), h @ [s]))
   \<and> (\<exists>s. class' v new_CssSelector = Returned s \<and> builder_class v h = (Inr (length h), h @ [s]))
   \<and> (\<exists>s. attr v new_CssSelector = Returned s \<and> builder_attr v h = (Inr (length h), h @ [s]))
   \<and> (\<exists>s. pseudoClass v new_CssSelector = Returned s \<and> builder_pseudoClass v h = (Inr (length h), h @ [s]))
   \<and> (\<exists>s. pseudoElement v new_CssSelector = Returned s \<and> builder_pseudoElement v h = (Inr (length h), h @ [s]))
   \<and> builder_combine selector1 comb selector2 h = invoke_combine selector1 selector2 comb h
   \<and> fst (builder_combine selector1 comb selector2 h) = Inr selector1"
proof (intro conjI)
  show "\<exists>s. element v new_CssSelector = Returned s \<and> builder_element v h = (Inr (length h), h @ [s])"
    by (simp add: builder_element_def facade_fresh fragment_on_fresh)
  show "\<exists>s. id' v new_CssSelector = Returned s \<and> builder_id v h = (Inr (length h), h @ [s])"
    by (simp add: builder_id_def facade_fresh fragment_on_fresh)
  show "\<exists>s. class' v new_CssSelector = Returned s \<and> builder_class v h = (Inr (length h), h @ [s])"
    by (simp add: builder_class_def facade_fresh fragment_on_fresh)
  show "\<exists>s. attr v new_CssSelector = Returned s \<and> builder_attr v h = (Inr (length h), h @ [s])"
    by (simp add: builder_attr_def facade_fresh fragment_on_fresh)
  show "\<exists>s. pseudoClass v new_CssSelector = Returned s \<and> builder_pseudoClass v h = (Inr (length h), h @ [s])"
    by (simp add: builder_pseudoClass_def facade_fresh fragment_on_fresh)
  show "\<exists>s. pseudoElement v new_CssSelector = Returned s \<and> builder_pseudoElement v h = (Inr (length h), h @ [s])"
    by (simp add: builder_pseudoElement_def facade_fresh fragment_on_fresh)
  show "builder_combine selector1 comb selector2 h = invoke_combine selector1 selector2 comb h"
    by (simp add: builder_combine_def)
  show "fst (builder_combine selector1 comb selector2 h) = Inr selector1"
    by (simp add: builder_combine_def invoke_combine_def invoke_def combine_def)
qed

subsection \<open>Rendering\<close>

text \<open>
  C6. Whatever the fields of a builder, \<^verbatim>\<open>stringify\<close> returns a string and does not
  throw, leaves the store as it was, and a second call returns the same string.
\<close>

theorem stringify_pure:
  "\<exists>str. invoke_stringify this h = (Inr str, h)
       \<and> then_do (invoke_stringify this) (\<lambda>first. invoke_stringify this) h = (Inr str, h)"
  by (simp add: invoke_stringify_def then_do_def)

text \<open>
  C3. The third example of the documentation, in any store: three spaces stand before
  the final \<^verbatim>\<open>td\<close>.
\<close>

theorem example_combined_renders:
  "fst (example_combined h)
     = Inr ''div#main.container.draggable + table#data ~ tr:nth-of-type(even)   td:nth-of-type(even)''"
proof -
  define D0 where "D0 = new_CssSelector\<lparr>elementValue := ''div'', order := [1, 0, 0, 0, 0, 0]\<rparr>"
  define D1 where "D1 = D0\<lparr>order := [1, 1, 0, 0, 0, 0], idValue := ''#main''\<rparr>"
  define D2 where "D2 = D1\<lparr>order := [1, 1, 1, 0, 0, 0], classes := ''.container''\<rparr>"
  define D3 where "D3 = D2\<lparr>classes := ''.container.draggable''\<rparr>"
  define T0 where "T0 = new_CssSelector\<lparr>elementValue := ''table'', order := [1, 0, 0, 0, 0, 0]\<rparr>"
  define T1 where "T1 = T0\<lparr>order := [1, 1, 0, 0, 0, 0], idValue := ''#data''\<rparr>"
  define R0 where "R0 = new_CssSelector\<lparr>elementValue := ''tr'', order := [1, 0, 0, 0, 0, 0]\<rparr>"
  define R1 where "R1 = R0\<lparr>order := [1, 0, 0, 0, 1, 0], pseudoClasses := '':nth-of-type(even)''\<rparr>"
  define C0 where "C0 = new_CssSelector\<lparr>elementValue := ''td'', order := [1, 0, 0, 0, 0, 0]\<rparr>"
  define C1 where "C1 = C0\<lparr>order := [1, 0, 0, 0, 1, 0], pseudoClasses := '':nth-of-type(even)''\<rparr>"
  define R2 where "R2 = R1\<lparr>supSelector := ''td:nth-of-type(even)'', combinator := '' ''\<rparr>"
  define T2 where "T2 = T1\<lparr>supSelector := ''tr:nth-of-type(even)   td:nth-of-type(even)'', combinator := ''~''\<rparr>"
  define D4 where "D4 = D3\<lparr>supSelector := ''table#data ~ tr:nth-of-type(even)   td:nth-of-type(even)'', combinator := ''+''\<rparr>"
  have d1: "id' ''main'' D0 = Returned D1"
    by (simp add: D0_def D1_def eval_defs)
  have d2: "class' ''container'' D1 = Returned D2"
    by (simp add: D0_def D1_def D2_def eval_defs)
  have d3: "class' ''draggable'' D2 = Returned D3"
    by (simp add: D0_def D1_def D2_def D3_def eval_defs)
  have t1: "id' ''data'' T0 = Returned T1"
    by (simp add: T0_def T1_def eval_defs)
  have r1: "pseudoClass ''nth-of-type(even)'' R0 = Returned R1"
    by (simp add: R0_def R1_def eval_defs)
  have c1: "pseudoClass ''nth-of-type(even)'' C0 = Returned C1"
    by (simp add: C0_def C1_def eval_defs)
  have sc: "stringify C1 = ''td:nth-of-type(even)''"
    by (simp add: C0_def C1_def new_CssSelector_def render_defs)
  have sr: "stringify R2 = ''tr:nth-of-type(even)   td:nth-of-type(even)''"
    by (simp add: R0_def R1_def R2_def new_CssSelector_def render_defs)
  have st: "stringify T2 = ''table#data ~ tr:nth-of-type(even)   td:nth-of-type(even)''"
    by (simp add: T0_def T1_def T2_def new_CssSelector_def render_defs)
  have sd: "stringify D4 = ''div#main.container.draggable + table#data ~ tr:nth-of-type(even)   td:nth-of-type(even)''"
    by (simp add: D0_def D1_def D2_def D3_def D4_def new_CssSelector_def render_defs)
  have p1: "builder_element ''div'' h = (Inr (length h), h @ [D0])"
    by (simp add: builder_element_eq D0_def)
  have p2: "invoke (id' ''main'') (length h) (h @ [D0]) = (Inr (length h), h @ [D1])"
    using invoke_at [of 0 "[D0]" "id' ''main''" h] by (simp add: d1)
  have p3: "invoke (class' ''container'') (length h) (h @ [D1]) = (Inr (length h), h @ [D2])"
    using invoke_at [of 0 "[D1]" "class' ''container''" h] by (simp add: d2)
  have p4: "invoke (class' ''draggable'') (length h) (h @ [D2]) = (Inr (length h), h @ [D3])"
    using invoke_at [of 0 "[D2]" "class' ''draggable''" h] by (simp add: d3)
  have p5: "builder_element ''table'' (h @ [D3]) = (Inr (Suc (length h)), h @ [D3, T0])"
    by (simp add: builder_element_eq T0_def)
  have p6: "invoke (id' ''data'') (Suc (length h)) (h @ [D3, T0]) = (Inr (Suc (length h)), h @ [D3, T1])"
    using invoke_at [of 1 "[D3, T0]" "id' ''data''" h] by (simp add: t1)
  have p7: "builder_element ''tr'' (h @ [D3, T1]) = (Inr (Suc (Suc (length h))), h @ [D3, T1, R0])"
    by (simp add: builder_element_eq R0_def)
  have p8: "invoke (pseudoClass ''nth-of-type(even)'') (Suc (Suc (length h))) (h @ [D3, T1, R0])
              = (Inr (Suc (Suc (length h))), h @ [D3, T1, R1])"
    using invoke_at [of 2 "[D3, T1, R0]" "pseudoClass ''nth-of-type(even)''" h] by (simp add: r1)
  have p9: "builder_element ''td'' (h @ [D3, T1, R1]) = (Inr (Suc (Suc (Suc (length h)))), h @ [D3, T1, R1, C0])"
    by (simp add: builder_element_eq C0_def)
  have p10: "invoke (pseudoClass ''nth-of-type(even)'') (Suc (Suc (Suc (length h)))) (h @ [D3, T1, R1, C0])
              = (Inr (Suc (Suc (Suc (length h)))), h @ [D3, T1, R1, C1])"
    using invoke_at [of 3 "[D3, T1, R1, C0]" "pseudoClass ''nth-of-type(even)''" h]
    by (simp add: c1 numeral_3_eq_3)
  have p11: "builder_combine (Suc (Suc (length h))) '' '' (Suc (Suc (Suc (length h)))) (h @ [D3, T1, R1, C1])
              = (Inr (Suc (Suc (length h))), h @ [D3, T1, R2, C1])"
    using invoke_combine_at [of 2 "[D3, T1, R1, C1]" 3 h "'' ''"]
    by (simp add: builder_combine_def sc R2_def numeral_3_eq_3)
  have p12: "builder_combine (Suc (length h)) ''~'' (Suc (Suc (length h))) (h @ [D3, T1, R2, C1])
              = (Inr (Suc (length h)), h @ [D3, T2, R2, C1])"
    using invoke_combine_at [of 1 "[D3, T1, R2, C1]" 2 h "''~''"]
    by (simp add: builder_combine_def sr T2_def)
  have p13: "builder_combine (length h) ''+'' (Suc (length h)) (h @ [D3, T2, R2, C1])
              = (Inr (length h), h @ [D4, T2, R2, C1])"
    using invoke_combine_at [of 0 "[D3, T2, R2, C1]" 1 h "''+''"]
    by (simp add: builder_combine_def st D4_def)
  have p14: "invoke_stringify (length h) (h @ [D4, T2, R2, C1])
              = (Inr ''div#main.container.draggable + table#data ~ tr:nth-of-type(even)   td:nth-of-type(even)'', h @ [D4, T2, R2, C1])"
    by (simp add: invoke_stringify_def sd)
  show ?thesis
    unfolding example_combined_def
    by (simp only: then_do_def p1 p2 p3 p4 p5 p6 p7 p8 p9 p10 p11 p12 p13 p14
          prod.case sum.case fst_conv)
qed

lemma example_id_classes_renders:
  "fst (example_id_classes h) = Inr ''#main.container.editable''"
  by (simp add: example_id_classes_def store_defs eval_defs render_defs)

text \<open>In the second example \<open>CHR 0x22\<close> is the double quote of \<^verbatim>\<open>href$=".png"\<close>.\<close>

lemma example_attr_pseudo_renders:
  "fst (example_attr_pseudo h) = Inr (''a[href$='' @ [CHR 0x22] @ ''.png'' @ [CHR 0x22] @ '']:focus'')"
  by (simp add: example_attr_pseudo_def store_defs eval_defs render_defs)

lemma below_mono: "below k s \<Longrightarrow> k \<le> k' \<Longrightarrow> below k' s"
  unfolding below_def by (meson le_trans)

lemma below_update:
  assumes "below k s"
  shows "below k (s\<lparr>order := (order s)[k := 1]\<rparr>)"
  unfolding below_def
proof (intro allI impI)
  fix i
  assume i: "i < length (order (s\<lparr>order := (order s)[k := 1]\<rparr>))"
    and one: "order (s\<lparr>order := (order s)[k := 1]\<rparr>) ! i = 1"
  show "i \<le> k"
  proof (cases "i = k")
    case True
    then show ?thesis by simp
  next
    case False
    with i one have "i < length (order s)" "order s ! i = 1" by simp_all
    with assms show ?thesis unfolding below_def by blast
  qed
qed

lemma class_below:
  assumes "below 2 s"
  shows "class' v s = Returned (s\<lparr>order := (order s)[2 := 1], classes := classes s @ ''.'' @ v\<rparr>)"
  by (simp add: class'_def checkOrder_below [OF assms])

lemma attr_below:
  assumes "below 3 s"
  shows "attr v s = Returned (s\<lparr>order := (order s)[3 := 1], attrs := attrs s @ ''['' @ v @ '']''\<rparr>)"
  by (simp add: attr_def checkOrder_below [OF assms])

lemma pseudoClass_below:
  assumes "below 4 s"
  shows "pseudoClass v s = Returned (s\<lparr>order := (order s)[4 := 1], pseudoClasses := pseudoClasses s @ '':'' @ v\<rparr>)"
  by (simp add: pseudoClass_def checkOrder_below [OF assms])

lemma run_classes:
  "below 2 s \<Longrightarrow> \<exists>ord. run (map Class vs) s
       = Returned (s\<lparr>classes := classes s @ concat (map (\<lambda>v. ''.'' @ v) vs), order := ord\<rparr>)
     \<and> below 2 (s\<lparr>order := ord\<rparr>)"
proof (induction vs arbitrary: s)
  case Nil
  then show ?case by (intro exI [of _ "order s"]) simp
next
  case (Cons v vs)
  let ?s1 = "s\<lparr>order := (order s)[2 := 1], classes := classes s @ ''.'' @ v\<rparr>"
  have b1: "below 2 ?s1"
    using below_update [OF Cons.prems] by (simp add: below_def)
  from Cons.IH [OF b1] obtain ord where
    "run (map Class vs) ?s1 = Returned (?s1\<lparr>classes := classes ?s1 @ concat (map (\<lambda>v. ''.'' @ v) vs), order := ord\<rparr>)"
    "below 2 (?s1\<lparr>order := ord\<rparr>)"
    by blast
  then show ?case
    by (intro exI [of _ ord]) (simp add: class_below [OF Cons.prems] below_def)
qed

lemma run_attrs:
  "below 3 s \<Longrightarrow> \<exists>ord. run (map Attr vs) s
       = Returned (s\<lparr>attrs := attrs s @ concat (map (\<lambda>v. ''['' @ v @ '']'') vs), order := ord\<rparr>)
     \<and> below 3 (s\<lparr>order := ord\<rparr>)"
proof (induction vs arbitrary: s)
  case Nil
  then show ?case by (intro exI [of _ "order s"]) simp
next
  case (Cons v vs)
  let ?s1 = "s\<lparr>order := (order s)[3 := 1], attrs := attrs s @ ''['' @ v @ '']''\<rparr>"
  have b1: "below 3 ?s1"
    using below_update [OF Cons.prems] by (simp add: below_def)
  from Cons.IH [OF b1] obtain ord where
    "run (map Attr vs) ?s1 = Returned (?s1\<lparr>attrs := attrs ?s1 @ concat (map (\<lambda>v. ''['' @ v @ '']'') vs), order := ord\<rparr>)"
    "below 3 (?s1\<lparr>order := ord\<rparr>)"
    by blast
  then show ?case
    by (intro exI [of _ ord]) (simp add: attr_below [OF Cons.prems] below_def)
qed

lemma run_pseudoClasses:
  "below 4 s \<Longrightarrow> \<exists>ord. run (map PseudoClass vs) s
       = Returned (s\<lparr>pseudoClasses := pseudoClasses s @ concat (map (\<lambda>v. '':'' @ v) vs), order := ord\<rparr>)
     \<and> below 4 (s\<lparr>order := ord\<rparr>)"
proof (induction vs arbitrary: s)
  case Nil
  then show ?case by (intro exI [of _ "order s"]) simp
next
  case (Cons v vs)
  let ?s1 = "s\<lparr>order := (order s)[4 := 1], pseudoClasses := pseudoClasses s @ '':'' @ v\<rparr>"
  have b1: "below 4 ?s1"
    using below_update [OF Cons.prems] by (simp add: below_def)
  from Cons.IH [OF b1] obtain ord where
    "run (map PseudoClass vs) ?s1 = Returned (?s1\<lparr>pseudoClasses := pseudoClasses ?s1 @ concat (map (\<lambda>v. '':'' @ v) vs), order := ord\<rparr>)"
    "below 4 (?s1\<lparr>order := ord\<rparr>)"
    by blast
  then show ?case
    by (intro exI [of _ ord]) (simp add: pseudoClass_below [OF Cons.prems] below_def)
qed

lemma run_repeated:
  "\<exists>ord. run (map Class cs @ map Attr ats @ map PseudoClass ps) new_CssSelector
     = Returned (new_CssSelector\<lparr>
         classes := concat (map (\<lambda>v. ''.'' @ v) cs),
         attrs := concat (map (\<lambda>v. ''['' @ v @ '']'') ats),
         pseudoClasses := concat (map (\<lambda>v. '':'' @ v) ps),
         order := ord\<rparr>)"
proof -
  from run_classes [OF fresh_below, of cs] obtain o1 where
    1: "run (map Class cs) new_CssSelector
          = Returned (new_CssSelector\<lparr>classes := concat (map (\<lambda>v. ''.'' @ v) cs), order := o1\<rparr>)"
    and b1: "below 2 (new_CssSelector\<lparr>order := o1\<rparr>)"
    by (auto simp: new_CssSelector_def)
  let ?s1 = "new_CssSelector\<lparr>classes := concat (map (\<lambda>v. ''.'' @ v) cs), order := o1\<rparr>"
  have "below 3 ?s1" using below_mono [OF b1, of 3] by (simp add: below_def)
  from run_attrs [OF this, of ats] obtain o2 where
    2: "run (map Attr ats) ?s1
          = Returned (?s1\<lparr>attrs := concat (map (\<lambda>v. ''['' @ v @ '']'') ats), order := o2\<rparr>)"
    and b2: "below 3 (?s1\<lparr>order := o2\<rparr>)"
    by (auto simp: new_CssSelector_def)
  let ?s2 = "?s1\<lparr>attrs := concat (map (\<lambda>v. ''['' @ v @ '']'') ats), order := o2\<rparr>"
  have "below 4 ?s2" using below_mono [OF b2, of 4] by (simp add: below_def)
  from run_pseudoClasses [OF this, of ps] obtain o3 where
    3: "run (map PseudoClass ps) ?s2
          = Returned (?s2\<lparr>pseudoClasses := concat (map (\<lambda>v. '':'' @ v) ps), order := o3\<rparr>)"
    by (auto simp: new_CssSelector_def)
  show ?thesis
    by (intro exI [of _ o3]) (simp only: run_append 1 2 3 and_then_simps, simp)
qed

lemma trim_trailing_space:
  assumes "x = [] \<or> \<not> is_white_space (hd x) \<and> \<not> is_white_space (last x)"
  shows "trim (x @ '' '') = x"
proof (cases x)
  case Nil
  then show ?thesis by (simp add: trim_def is_white_space_def)
next
  case (Cons a as)
  with assms have h: "\<not> is_white_space a" and l: "\<not> is_white_space (last x)" by simp_all
  have sp: "is_white_space CHR '' ''" by (simp add: is_white_space_def)
  have 1: "dropWhile is_white_space (x @ '' '') = x @ '' ''"
    using h Cons by simp
  have 2: "dropWhile is_white_space (rev x) = rev x"
    using l by (simp add: dropWhile_eq_self_iff hd_rev)
  show ?thesis
    by (simp add: trim_def 1 sp 2)
qed


lemma hd_repeated:
  assumes "x = concat (map (\<lambda>v. ''.'' @ v) cs) @ concat (map (\<lambda>v. ''['' @ v @ '']'') ats)
             @ concat (map (\<lambda>v. '':'' @ v) ps)" "x \<noteq> []"
  shows "\<not> is_white_space (hd x)"
proof -
  have "hd x = CHR ''.'' \<or> hd x = CHR ''['' \<or> hd x = CHR '':''"
  proof (cases cs)
    case (Cons c cs')
    then show ?thesis using assms(1) by simp
  next
    case Nil
    note cs = this
    show ?thesis
    proof (cases ats)
      case (Cons a ats')
      then show ?thesis using assms(1) cs by simp
    next
      case Nil
      note ats = this
      show ?thesis
      proof (cases ps)
        case (Cons p ps')
        then show ?thesis using assms(1) cs ats by simp
      next
        case Nil
        then show ?thesis using assms cs ats by simp
      qed
    qed
  qed
  then show ?thesis by (auto simp: is_white_space_def)
qed

text \<open>
  C8. The first two examples of the documentation render as documented. Any number of
  \<^verbatim>\<open>class\<close> calls, then of \<^verbatim>\<open>attr\<close> calls, then of \<^verbatim>\<open>pseudoClass\<close> calls on a
  fresh builder all return, and the builder renders their fragments concatenated in call
  order; \<^verbatim>\<open>stringify\<close> trims, so the rendering is the concatenation itself unless
  the last fragment ends in white space.
\<close>

theorem repeated_fragments_render:
  "fst (example_id_classes h) = Inr ''#main.container.editable''
   \<and> fst (example_attr_pseudo h) = Inr (''a[href$='' @ [CHR 0x22] @ ''.png'' @ [CHR 0x22] @ '']:focus'')
   \<and> (\<exists>s. run (map Class cs @ map Attr ats @ map PseudoClass ps) new_CssSelector = Returned s
          \<and> classes s = concat (map (\<lambda>v. ''.'' @ v) cs)
          \<and> attrs s = concat (map (\<lambda>v. ''['' @ v @ '']'') ats)
          \<and> pseudoClasses s = concat (map (\<lambda>v. '':'' @ v) ps)
          \<and> stringify s = trim (classes s @ attrs s @ pseudoClasses s @ '' '')
          \<and> (classes s @ attrs s @ pseudoClasses s = []
               \<or> \<not> is_white_space (last (classes s @ attrs s @ pseudoClasses s))
             \<longrightarrow> stringify s = classes s @ attrs s @ pseudoClasses s))"
proof (intro conjI)
  show "fst (example_id_classes h) = Inr ''#main.container.editable''"
    by (rule example_id_classes_renders)
  show "fst (example_attr_pseudo h) = Inr (''a[href$='' @ [CHR 0x22] @ ''.png'' @ [CHR 0x22] @ '']:focus'')"
    by (rule example_attr_pseudo_renders)
  from run_repeated [of cs ats ps] obtain ord where
    r: "run (map Class cs @ map Attr ats @ map PseudoClass ps) new_CssSelector
     = Returned (new_CssSelector\<lparr>
         classes := concat (map (\<lambda>v. ''.'' @ v) cs),
         attrs := concat (map (\<lambda>v. ''['' @ v @ '']'') ats),
         pseudoClasses := concat (map (\<lambda>v. '':'' @ v) ps),
         order := ord\<rparr>)" by blast
  define s where "s = new_CssSelector\<lparr>
         classes := concat (map (\<lambda>v. ''.'' @ v) cs),
         attrs := concat (map (\<lambda>v. ''['' @ v @ '']'') ats),
         pseudoClasses := concat (map (\<lambda>v. '':'' @ v) ps),
         order := ord\<rparr>"
  define x where "x = classes s @ attrs s @ pseudoClasses s"
  have c: "classes s = concat (map (\<lambda>v. ''.'' @ v) cs)"
    and a: "attrs s = concat (map (\<lambda>v. ''['' @ v @ '']'') ats)"
    and p: "pseudoClasses s = concat (map (\<lambda>v. '':'' @ v) ps)"
    by (simp_all add: s_def)
  have st: "stringify s = trim (x @ '' '')"
    by (simp add: x_def s_def stringify_def new_CssSelector_def)
  have ex: "x = [] \<or> \<not> is_white_space (last x) \<longrightarrow> stringify s = x"
  proof
    assume h: "x = [] \<or> \<not> is_white_space (last x)"
    have "x \<noteq> [] \<longrightarrow> \<not> is_white_space (hd x)"
      using hd_repeated [of x cs ats ps] by (simp add: x_def c a p)
    with h have "x = [] \<or> \<not> is_white_space (hd x) \<and> \<not> is_white_space (last x)" by blast
    then show "stringify s = x" by (simp add: st trim_trailing_space)
  qed
  show "\<exists>s. run (map Class cs @ map Attr ats @ map PseudoClass ps) new_CssSelector = Returned s
          \<and> classes s = concat (map (\<lambda>v. ''.'' @ v) cs)
          \<and> attrs s = concat (map (\<lambda>v. ''['' @ v @ '']'') ats)
          \<and> pseudoClasses s = concat (map (\<lambda>v. '':'' @ v) ps)
          \<and> stringify s = trim (classes s @ attrs s @ pseudoClasses s @ '' '')
          \<and> (classes s @ attrs s @ pseudoClasses s = []
               \<or> \<not> is_white_space (last (classes s @ attrs s @ pseudoClasses s))
             \<longrightarrow> stringify s = classes s @ attrs s @ pseudoClasses s)"
    using r c a p st ex unfolding s_def [symmetric] x_def by (intro exI [of _ s]) simp
qed

text \<open>The theorem at two classes, an attribute and a pseudo-class.\<close>

theorem repeated_fragments_render_witness:
  "run [Class ''container'', Class ''editable'', Attr ''title'', PseudoClass ''hover''] new_CssSelector
     = Returned (new_CssSelector\<lparr>classes := ''.container.editable'', attrs := ''[title]'',
         pseudoClasses := '':hover'', order := [0, 0, 1, 1, 1, 0]\<rparr>)
   \<and> \<not> is_white_space (last ''.container.editable[title]:hover'')
   \<and> stringify (new_CssSelector\<lparr>classes := ''.container.editable'', attrs := ''[title]'',
         pseudoClasses := '':hover'', order := [0, 0, 1, 1, 1, 0]\<rparr>)
     = ''.container.editable[title]:hover''"
proof -
  let ?s = "new_CssSelector\<lparr>classes := ''.container.editable'', attrs := ''[title]'',
         pseudoClasses := '':hover'', order := [0, 0, 1, 1, 1, 0]\<rparr>"
  have r: "run [Class ''container'', Class ''editable'', Attr ''title'', PseudoClass ''hover''] new_CssSelector
     = Returned ?s"
    by (simp add: eval_defs)
  have w: "\<not> is_white_space (last ''.container.editable[title]:hover'')"
    by (simp add: is_white_space_def)
  from repeated_fragments_render [of "[]" "[''container'', ''editable'']" "[''title'']" "[''hover'']"]
  obtain s where
    s: "run (map Class [''container'', ''editable''] @ map Attr [''title''] @ map PseudoClass [''hover'']) new_CssSelector = Returned s"
    and x: "classes s @ attrs s @ pseudoClasses s = []
               \<or> \<not> is_white_space (last (classes s @ attrs s @ pseudoClasses s))
             \<longrightarrow> stringify s = classes s @ attrs s @ pseudoClasses s"
    by blast
  from s r have "s = ?s" by simp
  with x w have "stringify ?s = ''.container.editable[title]:hover''" by simp
  with r w show ?thesis by blast
qed

subsection \<open>What \<^verbatim>\<open>combine\<close> changes\<close>

text \<open>
  C9, as the code has it. \<^verbatim>\<open>this.combine(selector, combinator)\<close> returns \<^verbatim>\<open>this\<close>,
  stores the string \<^verbatim>\<open>selector.stringify()\<close> of the moment of the call and the
  combinator, and changes no other field of \<^verbatim>\<open>this\<close> and no other object. When
  \<^verbatim>\<open>selector\<close> is another object than \<^verbatim>\<open>this\<close>, it is therefore unchanged, and no
  later call on it changes what \<^verbatim>\<open>this\<close> renders. A second \<^verbatim>\<open>combine\<close> on
  \<^verbatim>\<open>this\<close> replaces the stored combinator and text.
\<close>

theorem combine_frame:
  assumes "this < length h" and "selector < length h"
  shows "\<exists>h'. invoke_combine this selector comb h = (Inr this, h')
     \<and> length h' = length h
     \<and> h' ! this = (h ! this)\<lparr>supSelector := stringify (h ! selector), combinator := comb\<rparr>
     \<and> (\<forall>r<length h. r \<noteq> this \<longrightarrow> h' ! r = h ! r)
     \<and> (selector \<noteq> this \<longrightarrow>
          (\<forall>m. stringify (snd (invoke m selector h') ! this) = stringify (h' ! this)))
     \<and> (\<forall>selector2 comb2. selector2 < length h \<longrightarrow>
          snd (invoke_combine this selector2 comb2 h') ! this
            = (h ! this)\<lparr>supSelector := stringify (h' ! selector2), combinator := comb2\<rparr>)"
proof -
  define h' where "h' = h[this := (h ! this)\<lparr>supSelector := stringify (h ! selector), combinator := comb\<rparr>]"
  have 1: "invoke_combine this selector comb h = (Inr this, h')"
    by (simp add: invoke_combine_def invoke_def combine_def h'_def)
  have 2: "length h' = length h" by (simp add: h'_def)
  have 3: "h' ! this = (h ! this)\<lparr>supSelector := stringify (h ! selector), combinator := comb\<rparr>"
    using assms(1) by (simp add: h'_def)
  have 4: "\<forall>r<length h. r \<noteq> this \<longrightarrow> h' ! r = h ! r"
    by (simp add: h'_def)
  have 5: "selector \<noteq> this \<longrightarrow>
          (\<forall>m. stringify (snd (invoke m selector h') ! this) = stringify (h' ! this))"
  proof (intro impI allI)
    fix m assume "selector \<noteq> this"
    then show "stringify (snd (invoke m selector h') ! this) = stringify (h' ! this)"
      by (cases "m (h' ! selector)") (simp_all add: invoke_def)
  qed
  have 6: "\<forall>selector2 comb2. selector2 < length h \<longrightarrow>
          snd (invoke_combine this selector2 comb2 h') ! this
            = (h ! this)\<lparr>supSelector := stringify (h' ! selector2), combinator := comb2\<rparr>"
    using assms(1) 2 by (simp add: invoke_combine_def invoke_def combine_def 3)
  from 1 2 3 4 5 6 show ?thesis by blast
qed

text \<open>
  The theorem at \<^verbatim>\<open>element('a')\<close> combined by \<^verbatim>\<open>'+'\<close> with \<^verbatim>\<open>element('b')\<close>, followed
  by \<^verbatim>\<open>class('x')\<close> on the second, and by a second \<^verbatim>\<open>combine\<close> with \<^verbatim>\<open>'>'\<close>.
\<close>

theorem combine_frame_witness:
  "(0::nat) < length [new_CssSelector\<lparr>elementValue := ''a'', order := [1, 0, 0, 0, 0, 0]\<rparr>,
                     new_CssSelector\<lparr>elementValue := ''b'', order := [1, 0, 0, 0, 0, 0]\<rparr>]
   \<and> (1::nat) < length [new_CssSelector\<lparr>elementValue := ''a'', order := [1, 0, 0, 0, 0, 0]\<rparr>,
                     new_CssSelector\<lparr>elementValue := ''b'', order := [1, 0, 0, 0, 0, 0]\<rparr>]
   \<and> (1::nat) \<noteq> 0
   \<and> invoke_combine 0 1 ''+'' [new_CssSelector\<lparr>elementValue := ''a'', order := [1, 0, 0, 0, 0, 0]\<rparr>,
                     new_CssSelector\<lparr>elementValue := ''b'', order := [1, 0, 0, 0, 0, 0]\<rparr>]
     = (Inr 0, [new_CssSelector\<lparr>elementValue := ''a'', combinator := ''+'', supSelector := ''b'', order := [1, 0, 0, 0, 0, 0]\<rparr>,
                new_CssSelector\<lparr>elementValue := ''b'', order := [1, 0, 0, 0, 0, 0]\<rparr>])
   \<and> stringify (snd (invoke (class' ''x'') 1
        [new_CssSelector\<lparr>elementValue := ''a'', combinator := ''+'', supSelector := ''b'', order := [1, 0, 0, 0, 0, 0]\<rparr>,
         new_CssSelector\<lparr>elementValue := ''b'', order := [1, 0, 0, 0, 0, 0]\<rparr>]) ! 0)
     = stringify (new_CssSelector\<lparr>elementValue := ''a'', combinator := ''+'', supSelector := ''b'', order := [1, 0, 0, 0, 0, 0]\<rparr>)
   \<and> snd (invoke_combine 0 1 ''>''
        [new_CssSelector\<lparr>elementValue := ''a'', combinator := ''+'', supSelector := ''b'', order := [1, 0, 0, 0, 0, 0]\<rparr>,
         new_CssSelector\<lparr>elementValue := ''b'', order := [1, 0, 0, 0, 0, 0]\<rparr>]) ! 0
     = new_CssSelector\<lparr>elementValue := ''a'', combinator := ''>'', supSelector := ''b'', order := [1, 0, 0, 0, 0, 0]\<rparr>"
proof -
  let ?a = "new_CssSelector\<lparr>elementValue := ''a'', order := [1, 0, 0, 0, 0, 0]\<rparr>"
  let ?b = "new_CssSelector\<lparr>elementValue := ''b'', order := [1, 0, 0, 0, 0, 0]\<rparr>"
  let ?a' = "new_CssSelector\<lparr>elementValue := ''a'', combinator := ''+'', supSelector := ''b'', order := [1, 0, 0, 0, 0, 0]\<rparr>"
  have l0: "(0::nat) < length [?a, ?b]" and l1: "(1::nat) < length [?a, ?b]" and ne: "(1::nat) \<noteq> 0"
    by simp_all
  have c: "invoke_combine 0 1 ''+'' [?a, ?b] = (Inr 0, [?a', ?b])"
    by (simp add: store_defs eval_defs render_defs)
  from combine_frame [OF l0 l1, of "''+''"] obtain h' where
    h': "invoke_combine 0 1 ''+'' [?a, ?b] = (Inr 0, h')"
    and later: "(1::nat) \<noteq> 0 \<longrightarrow> (\<forall>m. stringify (snd (invoke m 1 h') ! 0) = stringify (h' ! 0))"
    and again: "\<forall>selector2 comb2. selector2 < length [?a, ?b] \<longrightarrow>
          snd (invoke_combine 0 selector2 comb2 h') ! 0
            = ([?a, ?b] ! 0)\<lparr>supSelector := stringify (h' ! selector2), combinator := comb2\<rparr>"
    by blast
  from h' c have eq: "h' = [?a', ?b]" by simp
  from later ne have "stringify (snd (invoke (class' ''x'') 1 h') ! 0) = stringify (h' ! 0)" by blast
  then have m: "stringify (snd (invoke (class' ''x'') 1 [?a', ?b]) ! 0) = stringify ?a'"
    by (simp add: eq)
  from again l1 have "snd (invoke_combine 0 1 ''>'' h') ! 0
            = ([?a, ?b] ! 0)\<lparr>supSelector := stringify (h' ! 1), combinator := ''>''\<rparr>" by blast
  then have s: "snd (invoke_combine 0 1 ''>'' [?a', ?b]) ! 0
     = new_CssSelector\<lparr>elementValue := ''a'', combinator := ''>'', supSelector := ''b'', order := [1, 0, 0, 0, 0, 0]\<rparr>"
    by (simp add: eq new_CssSelector_def render_defs)
  from l0 l1 ne c m s show ?thesis by blast
qed

text \<open>
  A builder may be combined with itself. Then the selector passed is changed by the call
  (it renders \<^verbatim>\<open>a + a\<close>), and a later \<^verbatim>\<open>class('x')\<close> on it changes what the combined
  builder renders.
\<close>

theorem combine_frame_counterexample:
  "builder_element ''a'' [] = (Inr 0, [new_CssSelector\<lparr>elementValue := ''a'', order := [1, 0, 0, 0, 0, 0]\<rparr>])
   \<and> invoke_combine 0 0 ''+'' [new_CssSelector\<lparr>elementValue := ''a'', order := [1, 0, 0, 0, 0, 0]\<rparr>]
     = (Inr 0, [new_CssSelector\<lparr>elementValue := ''a'', combinator := ''+'', supSelector := ''a'', order := [1, 0, 0, 0, 0, 0]\<rparr>])
   \<and> new_CssSelector\<lparr>elementValue := ''a'', combinator := ''+'', supSelector := ''a'', order := [1, 0, 0, 0, 0, 0]\<rparr>
     \<noteq> new_CssSelector\<lparr>elementValue := ''a'', order := [1, 0, 0, 0, 0, 0]\<rparr>
   \<and> stringify (new_CssSelector\<lparr>elementValue := ''a'', combinator := ''+'', supSelector := ''a'', order := [1, 0, 0, 0, 0, 0]\<rparr>)
     = ''a + a''
   \<and> invoke (class' ''x'') 0 [new_CssSelector\<lparr>elementValue := ''a'', combinator := ''+'', supSelector := ''a'', order := [1, 0, 0, 0, 0, 0]\<rparr>]
     = (Inr 0, [new_CssSelector\<lparr>elementValue := ''a'', classes := ''.x'', combinator := ''+'', supSelector := ''a'', order := [1, 0, 1, 0, 0, 0]\<rparr>])
   \<and> stringify (new_CssSelector\<lparr>elementValue := ''a'', classes := ''.x'', combinator := ''+'', supSelector := ''a'', order := [1, 0, 1, 0, 0, 0]\<rparr>)
     = ''a.x + a''"
  by (simp add: store_defs eval_defs render_defs)

end
